theory Spec2Isabelle
  imports Main "HOL-Library.Word"
begin

unbundle bit_operations_syntax

section \<open>Data model\<close>

text \<open>
  A Go \<^verbatim>\<open>byte\<close> is an 8-bit word; a Go \<^verbatim>\<open>string\<close> and a \<^verbatim>\<open>[]byte\<close> are both
  sequences of bytes (\<^verbatim>\<open>string(buf)\<close> and \<^verbatim>\<open>[]byte(s)\<close> keep every byte, NUL included).
  A \<^verbatim>\<open>uint64\<close> is a natural number below \<open>2 ^ 64\<close>; where the library code can wrap
  around, the reduction modulo \<open>2 ^ 64\<close> is written out.
\<close>

type_synonym byte = "8 word"
type_synonym gostring = "byte list"

text \<open>
  The error values that reach the code of \<^verbatim>\<open>util.go\<close> and \<^verbatim>\<open>dumpcap.go\<close>:
  \<^verbatim>\<open>io.EOF\<close>, \<^verbatim>\<open>io.ErrUnexpectedEOF\<close>, a \<^verbatim>\<open>*os.PathError\<close> (the pipe was closed while
  it was read), any other error of the underlying reader, a \<^verbatim>\<open>*strconv.NumError\<close>
  wrapping \<^verbatim>\<open>strconv.ErrSyntax\<close> or \<^verbatim>\<open>strconv.ErrRange\<close>, the error
  \<^verbatim>\<open>errors.New("illegal output from dumpcap")\<close>, and the error of a failed process exit.
\<close>

datatype numerr = ErrSyntax | ErrRange

datatype error =
    EOF
  | ErrUnexpectedEOF
  | PathError
  | ReadError nat
  | NumError numerr
  | IllegalOutput
  | ExitError nat

subsection \<open>Message type codes (\<^verbatim>\<open>util.go\<close>, lines 25 to 33)\<close>

definition BadFilterMsg :: byte where "BadFilterMsg = 66"
definition DropCountMsg :: byte where "DropCountMsg = 68"
definition ErrMsg :: byte where "ErrMsg = 69"
definition FileMsg :: byte where "FileMsg = 70"
definition PacketCountMsg :: byte where "PacketCountMsg = 80"
definition QuitMsg :: byte where "QuitMsg = 81"
definition SuccessMsg :: byte where "SuccessMsg = 83"

record PipeMessage =
  Type :: byte
  DropCount :: nat
  PacketCount :: nat
  Text :: gostring

section \<open>Readers and \<^verbatim>\<open>io.ReadFull\<close>\<close>

text \<open>
  An \<^verbatim>\<open>io.Reader\<close> is the bytes it will still deliver (\<open>pending\<close>) and the error its
  \<^verbatim>\<open>Read\<close> returns once they are used up (\<open>fin\<close>): \<^verbatim>\<open>io.EOF\<close> for a stream that ends,
  a \<^verbatim>\<open>*os.PathError\<close> for a pipe closed under the reader, and so on.
  \<^verbatim>\<open>bytes.NewReader(b)\<close> delivers \<open>b\<close> and then \<^verbatim>\<open>io.EOF\<close>.
\<close>

record reader =
  pending :: "byte list"
  fin :: error

definition NewReader :: "byte list \<Rightarrow> reader" where
  "NewReader b = \<lparr>pending = b, fin = EOF\<rparr>"

text \<open>
  \<^verbatim>\<open>io.ReadFull(r, buf)\<close> with \<open>n = len(buf)\<close> (Go standard library): it fills the whole
  buffer or fails. The error is the reader's own, except that \<^verbatim>\<open>io.EOF\<close> after at least
  one byte was read becomes \<^verbatim>\<open>io.ErrUnexpectedEOF\<close>; \<^verbatim>\<open>io.EOF\<close> is returned only if no
  byte was read.
\<close>

definition ReadFull :: "reader \<Rightarrow> nat \<Rightarrow> error + (byte list \<times> reader)" where
  "ReadFull r n =
     (if n \<le> length (pending r)
      then Inr (take n (pending r), r\<lparr>pending := drop n (pending r)\<rparr>)
      else if pending r \<noteq> [] \<and> fin r = EOF then Inl ErrUnexpectedEOF
      else Inl (fin r))"

section \<open>The message codec (\<^verbatim>\<open>util.go\<close>)\<close>

text \<open>
  \<^verbatim>\<open>parsePipeMsg\<close> (lines 135 to 159): a header of four bytes, the type and the size
  of the text in three bytes, then the text, whose final NUL byte, if any, is cut off.
\<close>

definition parsePipeMsg :: "reader \<Rightarrow> error + ((byte \<times> byte list) \<times> reader)" where
  "parsePipeMsg input =
     (case ReadFull input 4 of
        Inl err \<Rightarrow> Inl err
      | Inr (buffer, input1) \<Rightarrow>
          let msgType = buffer ! 0;
              msgSize = (push_bit 16 (unat (buffer ! 1)) OR push_bit 8 (unat (buffer ! 2))
                          OR push_bit 0 (unat (buffer ! 3)) :: nat)
          in if msgSize = 0 then Inr ((msgType, []), input1)
             else (case ReadFull input1 msgSize of
                     Inl err \<Rightarrow> Inl err
                   | Inr (buffer2, input2) \<Rightarrow>
                       let buffer3 =
                             (if 0 < length buffer2 \<and> buffer2 ! (length buffer2 - 1) = 0
                              then take (length buffer2 - 1) buffer2 else buffer2)
                       in Inr ((msgType, buffer3), input2)))"

text \<open>
  \<^verbatim>\<open>parsePipeErrMsg\<close> (lines 162 to 174): a primary and a secondary message, whose
  texts are concatenated; their types are dropped.
\<close>

definition parsePipeErrMsg :: "reader \<Rightarrow> error + gostring" where
  "parsePipeErrMsg input =
     (case parsePipeMsg input of
        Inl err \<Rightarrow> Inl err
      | Inr ((_, err1), input1) \<Rightarrow>
          (case parsePipeMsg input1 of
             Inl err \<Rightarrow> Inl err
           | Inr ((_, err2), _) \<Rightarrow> Inr (err1 @ err2)))"

subsection \<open>\<^verbatim>\<open>strconv.ParseUint\<close> in base 10\<close>

text \<open>
  The size of Go's \<^verbatim>\<open>int\<close> and \<^verbatim>\<open>uint\<close> (\<^verbatim>\<open>strconv.IntSize\<close>), here that of a 64-bit
  platform.
\<close>

definition IntSize :: nat where "IntSize = 64"

definition maxUint64 :: nat where "maxUint64 = 2 ^ 64 - 1"

text \<open>
  The digit loop of \<^verbatim>\<open>strconv.ParseUint(s, 10, bitSize)\<close> (Go standard library), on
  \<^verbatim>\<open>uint64\<close> with the wrap-around written out. A byte that is no decimal digit is a
  syntax error (a letter is a digit of value 10 or more, rejected because it is not below
  the base). \<open>cutoff\<close> is the least number whose tenfold exceeds \<^verbatim>\<open>maxUint64\<close>. The
  value returned besides a range error is \<open>maxVal\<close>, besides a syntax error 0.
\<close>

fun parseUint_loop :: "nat \<Rightarrow> nat \<Rightarrow> gostring \<Rightarrow> nat \<times> error option" where
  "parseUint_loop maxVal n [] = (n, None)"
| "parseUint_loop maxVal n (c # cs) =
     (if 48 \<le> c \<and> c \<le> 57 then
        (let d = unat (c - 48); cutoff = maxUint64 div 10 + 1 in
         if n \<ge> cutoff then (maxVal, Some (NumError ErrRange))
         else (let n' = (n * 10) mod 2 ^ 64; n1 = (n' + d) mod 2 ^ 64 in
               if n1 < n' \<or> n1 > maxVal then (maxVal, Some (NumError ErrRange))
               else parseUint_loop maxVal n1 cs))
      else (0, Some (NumError ErrSyntax)))"

text \<open>
  \<^verbatim>\<open>ParseUint(s, 10, bitSize)\<close> for the bit sizes the program passes, 0 and 64: the
  empty string is a syntax error, and a bit size of 0 stands for \<^verbatim>\<open>IntSize\<close>.
\<close>

definition ParseUint :: "gostring \<Rightarrow> nat \<Rightarrow> nat \<times> error option" where
  "ParseUint s bitSize =
     (if s = [] then (0, Some (NumError ErrSyntax))
      else (let bits = (if bitSize = 0 then IntSize else bitSize);
                maxVal = 2 ^ bits - 1
            in parseUint_loop maxVal 0 s))"

subsection \<open>\<^verbatim>\<open>readPipeMsg\<close> (lines 177 to 206)\<close>

definition readPipeMsg :: "reader \<Rightarrow> error + (PipeMessage \<times> reader)" where
  "readPipeMsg input =
     (case parsePipeMsg input of
        Inl err \<Rightarrow> Inl err
      | Inr ((msgType, msgBuffer), input') \<Rightarrow>
          let msg = \<lparr>Type = msgType, DropCount = 0, PacketCount = 0, Text = msgBuffer\<rparr> in
          if msgType = DropCountMsg then
            (case ParseUint (Text msg) 0 of
               (_, Some err) \<Rightarrow> Inl err
             | (i, None) \<Rightarrow> Inr (msg\<lparr>DropCount := i\<rparr>, input'))
          else if msgType = ErrMsg then
            (case parsePipeErrMsg (NewReader msgBuffer) of
               Inl err \<Rightarrow> Inl err
             | Inr errmsg \<Rightarrow> Inr (msg\<lparr>Text := errmsg\<rparr>, input'))
          else if msgType = PacketCountMsg then
            (case ParseUint (Text msg) 0 of
               (_, Some err) \<Rightarrow> Inl err
             | (i, None) \<Rightarrow> Inr (msg\<lparr>PacketCount := i\<rparr>, input'))
          else Inr (msg, input'))"

subsection \<open>The encoder of the test suite (\<^verbatim>\<open>dumpcap_test.go\<close>, lines 30 to 43)\<close>

text \<open>
  \<^verbatim>\<open>generateMsg\<close> appends a NUL byte to the text and puts the type and the three low
  bytes of the length in front; \<^verbatim>\<open>byte(x)\<close> keeps the low eight bits.
\<close>

definition generateMsg :: "byte \<Rightarrow> gostring \<Rightarrow> byte list" where
  "generateMsg msgType msgText =
     (let msgText' = msgText @ [0]; msgLen = length msgText' in
      [msgType, of_nat (drop_bit 16 msgLen), of_nat (drop_bit 8 msgLen), of_nat msgLen]
        @ msgText')"

definition generateErrorMsg :: "gostring \<Rightarrow> gostring \<Rightarrow> byte list" where
  "generateErrorMsg msgText1 msgText2 =
     (let msg = generateMsg ErrMsg msgText1;
          msg' = msg @ generateMsg ErrMsg msgText2
      in generateMsg ErrMsg msg')"

section \<open>Statistics lines (\<^verbatim>\<open>dumpcap.go\<close>)\<close>

text \<open>
  \<^verbatim>\<open>strings.Index(s, sep)\<close> for a separator of one byte (the program only splits at a
  tab): the position of the first occurrence, or none (Go's \<open>-1\<close>).
\<close>

definition Index :: "gostring \<Rightarrow> byte \<Rightarrow> nat option" where
  "Index s sep = (if sep \<in> set s then Some (length (takeWhile (\<lambda>c. c \<noteq> sep) s)) else None)"

text \<open>
  \<^verbatim>\<open>strings.SplitN(s, sep, n)\<close> for \<open>n \<ge> 0\<close> (Go standard library): at most \<open>n\<close>
  substrings, the last one being the unsplit remainder; \<open>n = 0\<close> gives no substring.
\<close>

fun SplitN :: "gostring \<Rightarrow> byte \<Rightarrow> nat \<Rightarrow> gostring list" where
  "SplitN s sep 0 = []"
| "SplitN s sep (Suc 0) = [s]"
| "SplitN s sep (Suc (Suc n)) =
     (case Index s sep of
        None \<Rightarrow> [s]
      | Some m \<Rightarrow> take m s # SplitN (drop (m + 1) s) sep (Suc n))"

definition tab :: byte where "tab = 9"

text \<open>
  \<^verbatim>\<open>parseStatisticsLine\<close> (lines 341 to 353). The function returns its four results
  together; the last is the error, \<open>None\<close> for Go's \<^verbatim>\<open>nil\<close>.
\<close>

definition parseStatisticsLine :: "gostring \<Rightarrow> gostring \<times> nat \<times> nat \<times> error option" where
  "parseStatisticsLine line =
     (let cols = SplitN line tab 3 in
      if length cols \<noteq> 3 then ([], 0, 0, Some IllegalOutput)
      else
        let devname = cols ! 0 in
        (case ParseUint (cols ! 1) 64 of
           (_, Some err) \<Rightarrow> ([], 0, 0, Some err)
         | (packetcount, None) \<Rightarrow>
             (case ParseUint (cols ! 2) 64 of
                (dropcount, err) \<Rightarrow> (devname, packetcount, dropcount, err))))"

datatype DeviceStatistics = DeviceStatistics gostring nat nat

section \<open>Sessions: the decode goroutines and \<^verbatim>\<open>Wait\<close>\<close>

text \<open>
  What a decode goroutine does to its channels, in order: a send on the output channel
  (\<^verbatim>\<open>Messages\<close> or \<^verbatim>\<open>Stats\<close>), a send on \<^verbatim>\<open>exitStatus\<close>, and the two deferred
  closes.
\<close>

datatype 'a event = Send 'a | SendExitStatus error | CloseExitStatus | CloseOutput

text \<open>
  The \<^verbatim>\<open>select\<close> statement of the goroutine either hands the message to the consumer or
  receives from the closed \<^verbatim>\<open>quit\<close> channel. A schedule lists which case runs at each
  \<^verbatim>\<open>select\<close> the goroutine reaches; at the end of the schedule neither case ever becomes
  ready, and the goroutine stays blocked in the \<^verbatim>\<open>select\<close>.
\<close>

datatype select_case = SendCase | QuitCase

text \<open>
  The loop of the goroutine of \<^verbatim>\<open>NewCapture\<close> (lines 277 to 293): the events of the
  loop, and whether the loop has returned (\<open>False\<close>: blocked in a \<^verbatim>\<open>select\<close> for ever).
\<close>

fun capture_loop :: "select_case list \<Rightarrow> reader \<Rightarrow> PipeMessage event list \<times> bool" where
  "capture_loop [] stderr =
     (case readPipeMsg stderr of
        Inl err \<Rightarrow> (if err \<noteq> PathError \<and> err \<noteq> EOF then [SendExitStatus err] else [], True)
      | Inr (msg, stderr') \<Rightarrow> ([], False))"
| "capture_loop (sel # sched) stderr =
     (case readPipeMsg stderr of
        Inl err \<Rightarrow> (if err \<noteq> PathError \<and> err \<noteq> EOF then [SendExitStatus err] else [], True)
      | Inr (msg, stderr') \<Rightarrow>
          (case sel of
             SendCase \<Rightarrow> (case capture_loop sched stderr' of (tr, stopped) \<Rightarrow> (Send msg # tr, stopped))
           | QuitCase \<Rightarrow> ([], True)))"

text \<open>
  The goroutine of \<^verbatim>\<open>NewCapture\<close> (lines 273 to 294): when the loop returns, the
  deferred calls run, last deferred first, so \<^verbatim>\<open>exitStatus\<close> is closed before
  \<^verbatim>\<open>Messages\<close>.
\<close>

definition capture_goroutine :: "select_case list \<Rightarrow> reader \<Rightarrow> PipeMessage event list" where
  "capture_goroutine sched stderr =
     (case capture_loop sched stderr of
        (tr, stopped) \<Rightarrow> if stopped then tr @ [CloseExitStatus, CloseOutput] else tr)"

text \<open>
  The loop of the goroutine of \<^verbatim>\<open>NewStatistics\<close> (lines 380 to 403). The
  \<^verbatim>\<open>bufio.Scanner\<close> is the list of lines it will return and the value of
  \<^verbatim>\<open>scanner.Err()\<close> after the last one (\<open>None\<close> when the stream just ended). The result
  is the events, whether the loop has returned, and the lines never scanned.
\<close>

fun statistics_loop ::
  "select_case list \<Rightarrow> gostring list \<Rightarrow> error option
     \<Rightarrow> DeviceStatistics event list \<times> bool \<times> gostring list" where
  "statistics_loop sched [] scanErr =
     (case scanErr of
        None \<Rightarrow> ([], True, [])
      | Some err \<Rightarrow> (if err \<noteq> PathError then [SendExitStatus err] else [], True, []))"
| "statistics_loop sched (line # lines) scanErr =
     (case parseStatisticsLine line of
        (devname, packetcount, dropcount, Some err) \<Rightarrow> ([SendExitStatus err], True, lines)
      | (devname, packetcount, dropcount, None) \<Rightarrow>
          (let ds = DeviceStatistics devname packetcount dropcount in
           case sched of
             [] \<Rightarrow> ([], False, lines)
           | SendCase # sched' \<Rightarrow>
               (case statistics_loop sched' lines scanErr of
                  (tr, stopped, unread) \<Rightarrow> (Send ds # tr, stopped, unread))
           | QuitCase # sched' \<Rightarrow> ([], True, lines)))"

definition statistics_goroutine ::
  "select_case list \<Rightarrow> gostring list \<Rightarrow> error option \<Rightarrow> DeviceStatistics event list" where
  "statistics_goroutine sched lines scanErr =
     (case statistics_loop sched lines scanErr of
        (tr, stopped, unread) \<Rightarrow> if stopped then tr @ [CloseExitStatus, CloseOutput] else tr)"

text \<open>
  The statistics the goroutine builds from a line it has parsed
  (\<^verbatim>\<open>DeviceStatistics{devname, packetcount, dropcount}\<close>), and the error of the parse.
\<close>

definition line_stats :: "gostring \<Rightarrow> DeviceStatistics" where
  "line_stats line =
     (case parseStatisticsLine line of
        (devname, packetcount, dropcount, err) \<Rightarrow> DeviceStatistics devname packetcount dropcount)"

definition line_error :: "gostring \<Rightarrow> error option" where
  "line_error line =
     (case parseStatisticsLine line of (devname, packetcount, dropcount, err) \<Rightarrow> err)"

text \<open>
  The channels \<^verbatim>\<open>Wait\<close> works on: whether \<^verbatim>\<open>quit\<close> is closed, and the buffer of
  \<^verbatim>\<open>exitStatus\<close> (capacity 1) with whether it is closed. \<open>channels_after\<close> is their
  state once a goroutine with the given events has done all it will ever do, \<^verbatim>\<open>quit\<close>
  not yet closed by \<^verbatim>\<open>Wait\<close>.
\<close>

record channels =
  quit_closed :: bool
  exitStatus_buf :: "error list"
  exitStatus_closed :: bool

fun sent_errors :: "'a event list \<Rightarrow> error list" where
  "sent_errors [] = []"
| "sent_errors (SendExitStatus err # tr) = err # sent_errors tr"
| "sent_errors (_ # tr) = sent_errors tr"

definition channels_after :: "'a event list \<Rightarrow> channels" where
  "channels_after tr =
     \<lparr>quit_closed = False, exitStatus_buf = sent_errors tr,
      exitStatus_closed = (CloseExitStatus \<in> set tr)\<rparr>"

text \<open>
  How a call ends: it returns, it panics (\<^verbatim>\<open>close\<close> of a closed channel), or it blocks
  for ever (a receive from an open channel nobody will send on). The steps of
  \<^verbatim>\<open>Wait\<close> are recorded in the order they are taken.
\<close>

datatype 'a outcome = Returns 'a | Panics | Blocks

datatype wait_step = ChildWait | CloseQuit | RecvExitStatus

text \<open>
  \<^verbatim>\<open>Capture.Wait\<close> (lines 307 to 314). \<open>childWait\<close> is what \<^verbatim>\<open>c.child.Wait()\<close> returns.
  A receive from \<^verbatim>\<open>exitStatus\<close> takes the buffered error if there is one, and gives
  \<^verbatim>\<open>nil\<close> if the channel is empty and closed.
\<close>

definition Capture_Wait ::
  "error option \<Rightarrow> channels \<Rightarrow> error option outcome \<times> channels \<times> wait_step list" where
  "Capture_Wait childWait c =
     (case childWait of
        Some err \<Rightarrow> (Returns (Some err), c, [ChildWait])
      | None \<Rightarrow>
          if quit_closed c then (Panics, c, [ChildWait, CloseQuit])
          else
            let c1 = c\<lparr>quit_closed := True\<rparr> in
            (case exitStatus_buf c1 of
               err # buf \<Rightarrow>
                 (Returns (Some err), c1\<lparr>exitStatus_buf := buf\<rparr>,
                  [ChildWait, CloseQuit, RecvExitStatus])
             | [] \<Rightarrow>
                 if exitStatus_closed c1
                 then (Returns None, c1, [ChildWait, CloseQuit, RecvExitStatus])
                 else (Blocks, c1, [ChildWait, CloseQuit, RecvExitStatus])))"

text \<open>\<^verbatim>\<open>Statistics.Wait\<close> (lines 417 to 424), the same statements on its own channels.\<close>

definition Statistics_Wait ::
  "error option \<Rightarrow> channels \<Rightarrow> error option outcome \<times> channels \<times> wait_step list" where
  "Statistics_Wait childWait s =
     (case childWait of
        Some err \<Rightarrow> (Returns (Some err), s, [ChildWait])
      | None \<Rightarrow>
          if quit_closed s then (Panics, s, [ChildWait, CloseQuit])
          else
            let s1 = s\<lparr>quit_closed := True\<rparr> in
            (case exitStatus_buf s1 of
               err # buf \<Rightarrow>
                 (Returns (Some err), s1\<lparr>exitStatus_buf := buf\<rparr>,
                  [ChildWait, CloseQuit, RecvExitStatus])
             | [] \<Rightarrow>
                 if exitStatus_closed s1
                 then (Returns None, s1, [ChildWait, CloseQuit, RecvExitStatus])
                 else (Blocks, s1, [ChildWait, CloseQuit, RecvExitStatus])))"

section \<open>The wire format and decimal numerals, as the specification words them\<close>

text \<open>
  A frame: one type byte, the length of the payload in three bytes, most significant
  first, and the payload.
\<close>

definition header :: "byte \<Rightarrow> nat \<Rightarrow> byte list" where
  "header ty n = [ty, of_nat (n div 65536), of_nat (n div 256), of_nat n]"

definition frame :: "byte \<Rightarrow> byte list \<Rightarrow> byte list" where
  "frame ty body = header ty (length body) @ body"

text \<open>The text of a payload: the payload without its final NUL byte, if it has one.\<close>

definition payload_text :: "byte list \<Rightarrow> gostring" where
  "payload_text body = (if body \<noteq> [] \<and> last body = 0 then butlast body else body)"

definition size24 :: "byte \<Rightarrow> byte \<Rightarrow> byte \<Rightarrow> nat" where
  "size24 a b c = unat a * 65536 + unat b * 256 + unat c"

text \<open>
  A base-10 unsigned integer of \<open>bits\<close> bits: one decimal digit or more (ASCII 48 to
  57), whose value is below \<open>2 ^ bits\<close>.
\<close>

definition is_digit :: "byte \<Rightarrow> bool" where
  "is_digit c \<longleftrightarrow> 48 \<le> c \<and> c \<le> 57"

definition digit_val :: "byte \<Rightarrow> nat" where
  "digit_val c = unat c - 48"

definition decimal :: "nat \<Rightarrow> gostring \<Rightarrow> nat" where
  "decimal n s = foldl (\<lambda>n c. 10 * n + digit_val c) n s"

definition is_uint :: "nat \<Rightarrow> gostring \<Rightarrow> bool" where
  "is_uint bits s \<longleftrightarrow> s \<noteq> [] \<and> list_all is_digit s \<and> decimal 0 s < 2 ^ bits"

text \<open>The fields of a line: the pieces between its tabs.\<close>

fun split_all :: "byte \<Rightarrow> gostring \<Rightarrow> gostring list" where
  "split_all sep [] = [[]]"
| "split_all sep (c # cs) =
     (if c = sep then [] # split_all sep cs
      else (case split_all sep cs of f # fs \<Rightarrow> (c # f) # fs | [] \<Rightarrow> [[c]]))"

definition tab_fields :: "gostring \<Rightarrow> gostring list" where
  "tab_fields line = split_all tab line"

section \<open>Verification\<close>

subsection \<open>The header arithmetic\<close>

lemma push_or_add: 
  fixes x y :: nat
  assumes "x < 2 ^ n"
  shows "push_bit n y OR x = y * 2 ^ n + x"
proof -
  have "\<not> bit (push_bit n y) k \<or> \<not> bit x k" for k
  proof (cases "k < n")
    case True then show ?thesis by (simp add: bit_push_bit_iff)
  next
    case False
    then have "x < 2 ^ k" using assms
      by (meson leI less_le_trans one_le_numeral power_increasing)
    then show ?thesis by (simp add: bit_iff_odd)
  qed
  then have "push_bit n y + x = push_bit n y OR x" by (rule disjunctive_add)
  then show ?thesis by (simp add: push_bit_eq_mult)
qed

lemma unat_byte_less: "unat (x :: byte) < 256"
  using unsigned_less [of x, where ?'a = nat] by simp

lemma msgSize_eq:
  "(push_bit 16 (unat (a::byte)) OR push_bit 8 (unat (b::byte)) OR push_bit 0 (unat (c::byte))) = size24 a b c"
proof -
  have 1: "push_bit 8 (unat b) OR unat c = unat b * 256 + unat c"
    using push_or_add [of "unat c" 8 "unat b"] unat_byte_less [of c] by simp
  have "unat b * 256 + unat c < 2 ^ 16"
    using unat_byte_less [of b] unat_byte_less [of c] by simp
  from push_or_add [OF this, of "unat a"] show ?thesis
    using 1 by (simp add: or.assoc size24_def)
qed


lemma size24_header:
  assumes "n < 2 ^ 24"
  shows "size24 (of_nat (n div 65536)) (of_nat (n div 256)) (of_nat n) = n"
proof -
  have "n div 65536 < 256" using assms by simp
  then have a: "n div 65536 mod 256 = n div 65536" by simp
  have b: "n div 256 mod 256 * 256 + n mod 256 = n mod 65536"
    using mod_mult2_eq [of n 256 256] by simp
  have "n div 65536 * 65536 + (n div 256 mod 256 * 256 + n mod 256) = n"
    unfolding b by simp
  then show ?thesis
    by (simp add: size24_def unat_of_nat a add.assoc)
qed


lemma ReadFull_ok:
  "n \<le> length (pending r) \<Longrightarrow>
     ReadFull r n = Inr (take n (pending r), r\<lparr>pending := drop n (pending r)\<rparr>)"
  by (simp add: ReadFull_def)

lemma ReadFull_short:
  "length (pending r) < n \<Longrightarrow>
     ReadFull r n = Inl (if pending r \<noteq> [] \<and> fin r = EOF then ErrUnexpectedEOF else fin r)"
  by (simp add: ReadFull_def)

lemma payload_text_alt:
  "(if 0 < length b \<and> b ! (length b - 1) = 0 then take (length b - 1) b else b) = payload_text b"
  by (cases "b = []") (simp_all add: payload_text_def last_conv_nth butlast_conv_take)

lemma parsePipeMsg_cons4:
  "pending r = ty # a # b # c # rest \<Longrightarrow>
   parsePipeMsg r =
     (if size24 a b c = 0 then Inr ((ty, []), r\<lparr>pending := rest\<rparr>)
      else if size24 a b c \<le> length rest
           then Inr ((ty, payload_text (take (size24 a b c) rest)), r\<lparr>pending := drop (size24 a b c) rest\<rparr>)
           else Inl (if rest \<noteq> [] \<and> fin r = EOF then ErrUnexpectedEOF else fin r))"
  unfolding parsePipeMsg_def msgSize_eq payload_text_alt
  by (simp add: ReadFull_def Let_def)


lemma parsePipeMsg_short:
  "length (pending r) < 4 \<Longrightarrow>
   parsePipeMsg r = Inl (if pending r \<noteq> [] \<and> fin r = EOF then ErrUnexpectedEOF else fin r)"
  by (simp add: parsePipeMsg_def ReadFull_def)


lemma parsePipeMsg_frame:
  assumes "length body < 2 ^ 24" and "pending r = frame ty body @ rest"
  shows "parsePipeMsg r = Inr ((ty, payload_text body), r\<lparr>pending := rest\<rparr>)"
proof -
  let ?n = "length body"
  have p: "pending r = ty # of_nat (?n div 65536) # of_nat (?n div 256) # of_nat ?n # (body @ rest)"
    using assms(2) by (simp add: frame_def header_def)
  show ?thesis
    unfolding parsePipeMsg_cons4 [OF p] size24_header [OF assms(1)]
    by (simp add: payload_text_def)
qed


subsection \<open>\<^verbatim>\<open>ParseUint\<close> accepts exactly the decimal numerals that fit\<close>

lemma decimal_Nil: "decimal n [] = n"
  by (simp add: decimal_def)

lemma decimal_Cons: "decimal n (c # cs) = decimal (10 * n + digit_val c) cs"
  by (simp add: decimal_def)

lemma decimal_ge: "n \<le> decimal n s"
proof (induction s arbitrary: n)
  case Nil
  show ?case by (simp add: decimal_Nil)
next
  case (Cons c cs)
  have "n \<le> 10 * n + digit_val c" by simp
  also have "\<dots> \<le> decimal (10 * n + digit_val c) cs" by (rule Cons.IH)
  finally show ?case by (simp add: decimal_Cons)
qed

lemma digit_unat: "48 \<le> c \<Longrightarrow> unat (c - 48) = digit_val c" for c :: byte
  by (simp add: digit_val_def unat_sub)

lemma digit_val_le: "is_digit c \<Longrightarrow> digit_val c \<le> 9"
  unfolding is_digit_def digit_val_def
  by (auto simp: word_le_nat_alt)

lemma parseUint_loop_nondigit:
  "\<not> is_digit c \<Longrightarrow> parseUint_loop maxVal n (c # cs) = (0, Some (NumError ErrSyntax))"
  by (auto simp: is_digit_def)

lemma parseUint_loop_cutoff:
  assumes "is_digit c" and "2 ^ 64 \<le> n * 10"
  shows "parseUint_loop maxVal n (c # cs) = (maxVal, Some (NumError ErrRange))"
  using assms by (simp add: is_digit_def maxUint64_def)

lemma parseUint_loop_digit:
  assumes "is_digit c" and "n * 10 < 2 ^ 64"
  shows "parseUint_loop maxVal n (c # cs) =
           (if 2 ^ 64 \<le> n * 10 + digit_val c \<or> maxVal < n * 10 + digit_val c
            then (maxVal, Some (NumError ErrRange))
            else parseUint_loop maxVal (n * 10 + digit_val c) cs)"
proof -
  let ?d = "digit_val c"
  let ?M = "18446744073709551616 :: nat"
  from assms(1) have c: "48 \<le> c" "c \<le> 57" by (simp_all add: is_digit_def)
  have d: "unat (c - 48) = ?d" using c(1) by (rule digit_unat)
  have d9: "?d \<le> 9" using assms(1) by (rule digit_val_le)
  from assms(2) have n10: "n * 10 < ?M" by simp
  then have cut: "\<not> maxUint64 div 10 + 1 \<le> n" by (simp add: maxUint64_def)
  have m1: "(n * 10) mod ?M = n * 10" using n10 by simp
  have unf: "parseUint_loop maxVal n (c # cs) =
      (if (n * 10 + ?d) mod ?M < n * 10 \<or> maxVal < (n * 10 + ?d) mod ?M
       then (maxVal, Some (NumError ErrRange))
       else parseUint_loop maxVal ((n * 10 + ?d) mod ?M) cs)"
    using c cut by (simp add: d Let_def m1 del: mod_less)
  show ?thesis
  proof (cases "?M \<le> n * 10 + ?d")
    case True
    with n10 d9 have "n * 10 + ?d < ?M + ?M" by simp
    with True have "(n * 10 + ?d) mod ?M = n * 10 + ?d - ?M"
      by (simp add: mod_if)
    with n10 True d9 have "(n * 10 + ?d) mod ?M < n * 10" by simp
    with True show ?thesis unfolding unf by simp
  next
    case False
    then have "(n * 10 + ?d) mod ?M = n * 10 + ?d" by simp
    with False show ?thesis unfolding unf by simp
  qed
qed

lemma parseUint_loop_ok:
  assumes "maxVal < 2 ^ 64"
  shows "list_all is_digit s \<Longrightarrow> decimal n s \<le> maxVal \<Longrightarrow>
         parseUint_loop maxVal n s = (decimal n s, None)"
proof (induction s arbitrary: n)
  case Nil
  show ?case by (simp add: decimal_Nil)
next
  case (Cons c cs)
  let ?n1 = "n * 10 + digit_val c"
  from Cons.prems have dig: "is_digit c" and digs: "list_all is_digit cs" by simp_all
  from Cons.prems have le: "decimal ?n1 cs \<le> maxVal"
    by (simp add: decimal_Cons mult.commute)
  have "?n1 \<le> decimal ?n1 cs" by (rule decimal_ge)
  with le have n1: "?n1 \<le> maxVal" by simp
  with assms have lt: "?n1 < 2 ^ 64" by simp
  then have n10: "n * 10 < 2 ^ 64" by simp
  have "parseUint_loop maxVal n (c # cs) = parseUint_loop maxVal ?n1 cs"
    using n1 lt by (simp add: parseUint_loop_digit [OF dig n10] del: parseUint_loop.simps)
  also have "\<dots> = (decimal ?n1 cs, None)" using digs le by (rule Cons.IH)
  finally show ?case by (simp add: decimal_Cons mult.commute)
qed

lemma parseUint_loop_err:
  assumes "maxVal < 2 ^ 64"
  shows "n \<le> maxVal \<Longrightarrow> \<not> (list_all is_digit s \<and> decimal n s \<le> maxVal) \<Longrightarrow>
         \<exists>v k. parseUint_loop maxVal n s = (v, Some (NumError k))"
proof (induction s arbitrary: n)
  case Nil
  then show ?case by (simp add: decimal_Nil)
next
  case (Cons c cs)
  let ?n1 = "n * 10 + digit_val c"
  show ?case
  proof (cases "is_digit c")
    case False
    then show ?thesis by (simp add: parseUint_loop_nondigit del: parseUint_loop.simps)
  next
    case dig: True
    show ?thesis
    proof (cases "n * 10 < 2 ^ 64")
      case False
      then have "2 ^ 64 \<le> n * 10" by simp
      from parseUint_loop_cutoff [OF dig this] show ?thesis by blast
    next
      case n10: True
      note step = parseUint_loop_digit [OF dig n10, of maxVal cs]
      show ?thesis
      proof (cases "2 ^ 64 \<le> ?n1 \<or> maxVal < ?n1")
        case True
        with step show ?thesis by simp
      next
        case False
        then have n1: "?n1 \<le> maxVal" by simp
        from Cons.prems(2) dig have "\<not> (list_all is_digit cs \<and> decimal ?n1 cs \<le> maxVal)"
          by (simp add: decimal_Cons mult.commute)
        with n1 have "\<exists>v k. parseUint_loop maxVal ?n1 cs = (v, Some (NumError k))"
          by (rule Cons.IH)
        with step False show ?thesis by simp
      qed
    qed
  qed
qed

lemma ParseUint_ok:
  assumes "bitSize = 0 \<or> bitSize = 64" and "is_uint 64 s"
  shows "ParseUint s bitSize = (decimal 0 s, None)"
proof -
  from assms(2) have ne: "s \<noteq> []" and dig: "list_all is_digit s"
    and le: "decimal 0 s \<le> 2 ^ 64 - 1"
    by (simp_all add: is_uint_def)
  have "parseUint_loop (2 ^ 64 - 1) 0 s = (decimal 0 s, None)"
    by (rule parseUint_loop_ok [OF _ dig le]) simp
  with assms(1) ne show ?thesis
    by (auto simp: ParseUint_def IntSize_def Let_def)
qed

lemma ParseUint_err:
  assumes "bitSize = 0 \<or> bitSize = 64" and "\<not> is_uint 64 s"
  shows "\<exists>v k. ParseUint s bitSize = (v, Some (NumError k))"
proof (cases "s = []")
  case True
  then show ?thesis by (simp add: ParseUint_def)
next
  case False
  with assms(2) have "\<not> (list_all is_digit s \<and> decimal 0 s \<le> 2 ^ 64 - 1)"
    by (auto simp: is_uint_def)
  then have "\<exists>v k. parseUint_loop (2 ^ 64 - 1) 0 s = (v, Some (NumError k))"
    by (intro parseUint_loop_err) simp_all
  with assms(1) False show ?thesis
    by (auto simp: ParseUint_def IntSize_def Let_def)
qed

subsection \<open>\<^verbatim>\<open>readPipeMsg\<close> on a complete frame\<close>

lemma generateMsg_frame: "generateMsg ty text = frame ty (text @ [0])"
  by (simp add: generateMsg_def frame_def header_def drop_bit_eq_div)

lemma payload_text_snoc: "payload_text (text @ [0]) = text"
  by (simp add: payload_text_def)

lemma readPipeMsg_frame:
  assumes "length body < 2 ^ 24" and "pending r = frame ty body @ rest"
  shows "readPipeMsg r =
     (let msg = \<lparr>Type = ty, DropCount = 0, PacketCount = 0, Text = payload_text body\<rparr>;
          r' = r\<lparr>pending := rest\<rparr> in
      if ty = DropCountMsg then
        (case ParseUint (payload_text body) 0 of
           (_, Some err) \<Rightarrow> Inl err
         | (i, None) \<Rightarrow> Inr (msg\<lparr>DropCount := i\<rparr>, r'))
      else if ty = ErrMsg then
        (case parsePipeErrMsg (NewReader (payload_text body)) of
           Inl err \<Rightarrow> Inl err
         | Inr errmsg \<Rightarrow> Inr (msg\<lparr>Text := errmsg\<rparr>, r'))
      else if ty = PacketCountMsg then
        (case ParseUint (payload_text body) 0 of
           (_, Some err) \<Rightarrow> Inl err
         | (i, None) \<Rightarrow> Inr (msg\<lparr>PacketCount := i\<rparr>, r'))
      else Inr (msg, r'))"
  unfolding readPipeMsg_def parsePipeMsg_frame [OF assms]
  by (simp add: Let_def)

lemma msg_codes_distinct:
  "DropCountMsg \<noteq> ErrMsg" "DropCountMsg \<noteq> PacketCountMsg" "PacketCountMsg \<noteq> ErrMsg"
  "PacketCountMsg \<noteq> DropCountMsg" "ErrMsg \<noteq> DropCountMsg" "ErrMsg \<noteq> PacketCountMsg"
  by (simp_all add: DropCountMsg_def ErrMsg_def PacketCountMsg_def)

subsection \<open>Truncated input and nested frames\<close>



lemma readPipeMsg_Inl:
  "parsePipeMsg r = Inl e \<Longrightarrow> readPipeMsg r = Inl e"
  by (simp add: readPipeMsg_def)

text \<open>The two nested messages of an error frame.\<close>

lemma parsePipeErrMsg_frames:
  assumes "length b1 < 2 ^ 24" and "length b2 < 2 ^ 24"
  shows "parsePipeErrMsg (NewReader (frame t1 b1 @ frame t2 b2 @ rest)) =
           Inr (payload_text b1 @ payload_text b2)"
proof -
  let ?r = "NewReader (frame t1 b1 @ frame t2 b2 @ rest)"
  have 1: "parsePipeMsg ?r = Inr ((t1, payload_text b1), ?r\<lparr>pending := frame t2 b2 @ rest\<rparr>)"
    by (rule parsePipeMsg_frame [OF assms(1)]) (simp add: NewReader_def)
  have 2: "parsePipeMsg (?r\<lparr>pending := frame t2 b2 @ rest\<rparr>) =
             Inr ((t2, payload_text b2), ?r\<lparr>pending := frame t2 b2 @ rest\<rparr>\<lparr>pending := rest\<rparr>)"
    by (rule parsePipeMsg_frame [OF assms(2)]) simp
  show ?thesis
    unfolding parsePipeErrMsg_def 1 by (simp add: 2)
qed



subsection \<open>A frame of the test suite, decoded\<close>

lemma readPipeMsg_generateMsg_123:
  "readPipeMsg (NewReader (generateMsg PacketCountMsg [49, 50, 51])) =
     Inr (\<lparr>Type = PacketCountMsg, DropCount = 0, PacketCount = 123, Text = [49, 50, 51]\<rparr>,
          NewReader [])"
proof -
  have len: "length [49, 50, 51, 0 :: byte] < 2 ^ 24" by simp
  have pend: "pending (NewReader (generateMsg PacketCountMsg [49, 50, 51])) =
                frame PacketCountMsg [49, 50, 51, 0] @ []"
    by (simp add: NewReader_def generateMsg_frame)
  have "is_uint 64 [49, 50, 51]"
    by (simp add: is_uint_def is_digit_def decimal_def digit_val_def)
  then have "ParseUint [49, 50, 51] 0 = (decimal 0 [49, 50, 51], None)"
    by (intro ParseUint_ok) simp_all
  moreover have "decimal 0 [49, 50, 51] = 123"
    by (simp add: decimal_def digit_val_def)
  ultimately show ?thesis
    unfolding readPipeMsg_frame [OF len pend]
    by (simp add: payload_text_def msg_codes_distinct NewReader_def)
qed

subsection \<open>Splitting a statistics line\<close>

lemma Index_none: "sep \<notin> set s \<Longrightarrow> Index s sep = None"
  by (simp add: Index_def)

lemma Index_first:
  assumes "sep \<notin> set a"
  shows "Index (a @ sep # b) sep = Some (length a)"
proof -
  from assms have "takeWhile (\<lambda>c. c \<noteq> sep) a = a" by auto
  then show ?thesis by (simp add: Index_def takeWhile_tail)
qed

lemma split_all_free: "sep \<notin> set s \<Longrightarrow> split_all sep s = [s]"
  by (induction s) auto

lemma split_all_first: "sep \<notin> set a \<Longrightarrow> split_all sep (a @ sep # b) = a # split_all sep b"
  by (induction a) auto

lemma split_all_not_Nil: "split_all sep s \<noteq> []"
  by (induction s) (auto split: list.splits)

lemma split_sep:
  assumes "sep \<in> set s"
  obtains a b where "s = a @ sep # b" and "sep \<notin> set a"
  using assms by (meson split_list_first)

lemma SplitN3_none: "sep \<notin> set s \<Longrightarrow> SplitN s sep 3 = [s]"
  by (simp add: numeral_3_eq_3 Index_none)

lemma SplitN3_one:
  "sep \<notin> set a \<Longrightarrow> sep \<notin> set b \<Longrightarrow> SplitN (a @ sep # b) sep 3 = [a, b]"
  by (simp add: numeral_3_eq_3 Index_first Index_none)

lemma SplitN3_two:
  "sep \<notin> set a \<Longrightarrow> sep \<notin> set b \<Longrightarrow> SplitN (a @ sep # b @ sep # c) sep 3 = [a, b, c]"
  by (simp add: numeral_3_eq_3 Index_first)

lemma is_uint_no_tab: "is_uint bits s \<Longrightarrow> tab \<notin> set s"
proof
  assume u: "is_uint bits s" and t: "tab \<in> set s"
  from u have "list_all is_digit s" by (simp add: is_uint_def)
  with t have "is_digit tab" by (simp add: list_all_iff)
  then show False by (simp add: is_digit_def tab_def)
qed

text \<open>The three shapes of a line.\<close>

lemma line_shapes:
  obtains (none) "tab \<notin> set line"
  | (one) a b where "line = a @ tab # b" "tab \<notin> set a" "tab \<notin> set b"
  | (two) a b c where "line = a @ tab # b @ tab # c" "tab \<notin> set a" "tab \<notin> set b"
proof (cases "tab \<in> set line")
  case False
  then show thesis by (rule none)
next
  case True
  then obtain a b where ab: "line = a @ tab # b" "tab \<notin> set a" by (rule split_sep)
  show thesis
  proof (cases "tab \<in> set b")
    case False
    with ab show thesis by (intro one)
  next
    case True
    then obtain b' c where "b = b' @ tab # c" "tab \<notin> set b'" by (rule split_sep)
    with ab show thesis by (intro two [of a b' c]) simp_all
  qed
qed

lemma parseStatisticsLine_two:
  assumes "line = a @ tab # b @ tab # c" "tab \<notin> set a" "tab \<notin> set b"
  shows "parseStatisticsLine line =
     (case ParseUint b 64 of
        (_, Some err) \<Rightarrow> ([], 0, 0, Some err)
      | (packetcount, None) \<Rightarrow>
          (case ParseUint c 64 of (dropcount, err) \<Rightarrow> (a, packetcount, dropcount, err)))"
  unfolding parseStatisticsLine_def assms(1) SplitN3_two [OF assms(2,3)]
  by (simp add: Let_def split: prod.splits option.splits)

lemma tab_fields_two:
  assumes "line = a @ tab # b @ tab # c" "tab \<notin> set a" "tab \<notin> set b"
  shows "tab_fields line = a # b # split_all tab c"
  using assms by (simp add: tab_fields_def split_all_first)

lemma parseStatisticsLine_ok:
  assumes "length (tab_fields line) = 3"
    and "is_uint 64 (tab_fields line ! 1)" and "is_uint 64 (tab_fields line ! 2)"
  shows "parseStatisticsLine line =
     (tab_fields line ! 0, decimal 0 (tab_fields line ! 1), decimal 0 (tab_fields line ! 2), None)"
proof (cases line rule: line_shapes)
  case none
  with assms(1) show ?thesis by (simp add: tab_fields_def split_all_free)
next
  case (one a b)
  with assms(1) show ?thesis by (simp add: tab_fields_def split_all_first split_all_free)
next
  case (two a b c)
  note f = tab_fields_two [OF two]
  from assms(1) f obtain c' where c': "split_all tab c = [c']"
    by (cases "split_all tab c") auto
  have "c' = c"
  proof (cases "tab \<in> set c")
    case False
    with c' show ?thesis by (simp add: split_all_free)
  next
    case True
    then obtain x y where "c = x @ tab # y" "tab \<notin> set x" by (rule split_sep)
    with c' show ?thesis using split_all_not_Nil [of tab y] by (simp add: split_all_first)
  qed
  with f c' assms(2,3) have "is_uint 64 b" "is_uint 64 c" and fl: "tab_fields line = [a, b, c]"
    by simp_all
  then have "ParseUint b 64 = (decimal 0 b, None)" "ParseUint c 64 = (decimal 0 c, None)"
    by (simp_all add: ParseUint_ok)
  then show ?thesis
    unfolding parseStatisticsLine_two [OF two] by (simp add: fl)
qed

lemma parseStatisticsLine_err:
  assumes "\<not> (length (tab_fields line) = 3
             \<and> is_uint 64 (tab_fields line ! 1) \<and> is_uint 64 (tab_fields line ! 2))"
  shows "\<exists>devname packetcount dropcount err.
           parseStatisticsLine line = (devname, packetcount, dropcount, Some err)"
proof (cases line rule: line_shapes)
  case none
  then show ?thesis by (simp add: parseStatisticsLine_def SplitN3_none)
next
  case (one a b)
  then show ?thesis by (simp add: parseStatisticsLine_def SplitN3_one)
next
  case (two a b c)
  note f = tab_fields_two [OF two]
  have "\<not> (is_uint 64 b \<and> is_uint 64 c)"
  proof
    assume u: "is_uint 64 b \<and> is_uint 64 c"
    then have "tab \<notin> set c" using is_uint_no_tab by blast
    then have "tab_fields line = [a, b, c]" using f by (simp add: split_all_free)
    with u assms show False by simp
  qed
  then consider "\<not> is_uint 64 b" | "is_uint 64 b" "\<not> is_uint 64 c" by blast
  then show ?thesis
  proof cases
    case 1
    then obtain v k where "ParseUint b 64 = (v, Some (NumError k))"
      using ParseUint_err [of 64 b] by auto
    then show ?thesis unfolding parseStatisticsLine_two [OF two] by simp
  next
    case 2
    then have "ParseUint b 64 = (decimal 0 b, None)" by (simp add: ParseUint_ok)
    moreover from 2 obtain v k where "ParseUint c 64 = (v, Some (NumError k))"
      using ParseUint_err [of 64 c] by auto
    ultimately show ?thesis unfolding parseStatisticsLine_two [OF two] by simp
  qed
qed

subsection \<open>The statistics loop on lines that parse and on one that does not\<close>

lemma statistics_loop_bad:
  assumes "parseStatisticsLine line = (devname, packetcount, dropcount, Some err)"
  shows "statistics_loop sched (line # unread) scanErr = ([SendExitStatus err], True, unread)"
  using assms by simp

lemma statistics_loop_good:
  assumes "line_error line = None"
  shows "statistics_loop (SendCase # sched) (line # lines) scanErr =
     (case statistics_loop sched lines scanErr of
        (tr, stopped, unread) \<Rightarrow> (Send (line_stats line) # tr, stopped, unread))"
  using assms
  by (cases "parseStatisticsLine line") (simp add: line_error_def line_stats_def)

lemma statistics_loop_good_prefix:
  assumes "\<forall>l \<in> set good. line_error l = None"
  shows "statistics_loop (replicate (length good) SendCase @ sched) (good @ lines) scanErr =
     (case statistics_loop sched lines scanErr of
        (tr, stopped, unread) \<Rightarrow> (map (\<lambda>l. Send (line_stats l)) good @ tr, stopped, unread))"
  using assms
proof (induction good)
  case Nil
  show ?case by simp
next
  case (Cons l good)
  then have l: "line_error l = None" and g: "\<forall>l \<in> set good. line_error l = None" by simp_all
  show ?case
    using statistics_loop_good [OF l] Cons.IH [OF g]
    by (simp del: statistics_loop.simps split: prod.splits)
qed

subsection \<open>The goroutines and the channels they leave\<close>



lemma capture_loop_sent_errors:
  "length (sent_errors (fst (capture_loop sched stderr))) \<le> 1"
proof (induction sched arbitrary: stderr)
  case Nil
  show ?case by (simp split: sum.splits)
next
  case (Cons sel sched)
  show ?case
  proof (cases "readPipeMsg stderr")
    case (Inl err)
    then show ?thesis by simp
  next
    case (Inr x)
    then obtain msg stderr' where r: "readPipeMsg stderr = Inr (msg, stderr')" by (cases x) auto
    show ?thesis
    proof (cases sel)
      case SendCase
      with r Cons.IH [of stderr'] show ?thesis
        by (cases "capture_loop sched stderr'") simp
    next
      case QuitCase
      with r show ?thesis by simp
    qed
  qed
qed




lemma sent_errors_append: "sent_errors (xs @ ys) = sent_errors xs @ sent_errors ys"
  by (induction xs rule: sent_errors.induct) simp_all

lemma Capture_Wait_result:
  assumes "\<not> quit_closed c" and "exitStatus_closed c"
  shows "\<exists>result c' steps. Capture_Wait childWait c = (Returns result, c', steps)
           \<and> (result = None \<longleftrightarrow> childWait = None \<and> exitStatus_buf c = [])
           \<and> (\<forall>err. childWait = Some err \<longrightarrow> result = Some err \<and> RecvExitStatus \<notin> set steps)"
  using assms
  by (cases childWait; cases "exitStatus_buf c") (simp_all add: Capture_Wait_def)

lemma Statistics_Wait_result:
  assumes "\<not> quit_closed s" and "exitStatus_closed s"
  shows "\<exists>result s' steps. Statistics_Wait childWait s = (Returns result, s', steps)
           \<and> (result = None \<longleftrightarrow> childWait = None \<and> exitStatus_buf s = [])
           \<and> (\<forall>err. childWait = Some err \<longrightarrow> result = Some err \<and> RecvExitStatus \<notin> set steps)"
  using assms
  by (cases childWait; cases "exitStatus_buf s") (simp_all add: Statistics_Wait_def)

lemma capture_stopped_channels:
  assumes "snd (capture_loop sched stderr)"
  shows "\<not> quit_closed (channels_after (capture_goroutine sched stderr))"
    and "exitStatus_closed (channels_after (capture_goroutine sched stderr))"
    and "exitStatus_buf (channels_after (capture_goroutine sched stderr)) =
           sent_errors (capture_goroutine sched stderr)"
  using assms
  by (cases "capture_loop sched stderr"; simp add: channels_after_def capture_goroutine_def)+

lemma statistics_stopped_channels:
  assumes "fst (snd (statistics_loop sched lines scanErr))"
  shows "\<not> quit_closed (channels_after (statistics_goroutine sched lines scanErr))"
    and "exitStatus_closed (channels_after (statistics_goroutine sched lines scanErr))"
    and "exitStatus_buf (channels_after (statistics_goroutine sched lines scanErr)) =
           sent_errors (statistics_goroutine sched lines scanErr)"
  using assms
  by (cases "statistics_loop sched lines scanErr"; simp add: channels_after_def statistics_goroutine_def)+

section \<open>The claims\<close>

text \<open>
  C1, as the code has it. A frame built by \<^verbatim>\<open>generateMsg\<close> from a type and a text of fewer
  than \<open>2 ^ 24 - 1\<close> bytes (with or without NUL bytes) decodes to the type and the text
  when the type is none of \<^verbatim>\<open>DropCountMsg\<close>, \<^verbatim>\<open>ErrMsg\<close>, \<^verbatim>\<open>PacketCountMsg\<close>; for the two
  count types it does so exactly when the text is a base-10 unsigned integer, the numeric
  field being set besides, and fails with a \<^verbatim>\<open>strconv.NumError\<close> otherwise; and an error
  frame built by \<^verbatim>\<open>generateErrorMsg\<close> from two texts whose nested frames fit the 24-bit
  length decodes to type \<^verbatim>\<open>ErrMsg\<close> and the two texts concatenated in order.
\<close>

theorem C1_roundtrip:
  assumes "length text + 1 < 2 ^ 24"
    and "length text1 + length text2 + 11 < 2 ^ 24"
  shows "(ty \<noteq> DropCountMsg \<and> ty \<noteq> ErrMsg \<and> ty \<noteq> PacketCountMsg \<longrightarrow>
            readPipeMsg (NewReader (generateMsg ty text)) =
              Inr (\<lparr>Type = ty, DropCount = 0, PacketCount = 0, Text = text\<rparr>, NewReader []))
       \<and> ((ty = DropCountMsg \<or> ty = PacketCountMsg) \<and> is_uint IntSize text \<longrightarrow>
            readPipeMsg (NewReader (generateMsg ty text)) =
              Inr (\<lparr>Type = ty,
                    DropCount = (if ty = DropCountMsg then decimal 0 text else 0),
                    PacketCount = (if ty = PacketCountMsg then decimal 0 text else 0),
                    Text = text\<rparr>, NewReader []))
       \<and> ((ty = DropCountMsg \<or> ty = PacketCountMsg) \<and> \<not> is_uint IntSize text \<longrightarrow>
            (\<exists>k. readPipeMsg (NewReader (generateMsg ty text)) = Inl (NumError k)))
       \<and> readPipeMsg (NewReader (generateErrorMsg text1 text2)) =
            Inr (\<lparr>Type = ErrMsg, DropCount = 0, PacketCount = 0, Text = text1 @ text2\<rparr>,
                 NewReader [])"
proof -
  let ?r = "NewReader (generateMsg ty text)"
  have len: "length (text @ [0]) < 2 ^ 24" using assms(1) by simp
  have pend: "pending ?r = frame ty (text @ [0]) @ []"
    by (simp add: NewReader_def generateMsg_frame)
  note rd = readPipeMsg_frame [OF len pend, unfolded payload_text_snoc]
  have upd: "?r\<lparr>pending := []\<rparr> = NewReader []" by (simp add: NewReader_def)
  have plain: "ty \<noteq> DropCountMsg \<and> ty \<noteq> ErrMsg \<and> ty \<noteq> PacketCountMsg \<longrightarrow>
      readPipeMsg ?r = Inr (\<lparr>Type = ty, DropCount = 0, PacketCount = 0, Text = text\<rparr>, NewReader [])"
    unfolding rd by (simp add: upd)
  have good: "(ty = DropCountMsg \<or> ty = PacketCountMsg) \<and> is_uint IntSize text \<longrightarrow>
      readPipeMsg ?r =
        Inr (\<lparr>Type = ty,
              DropCount = (if ty = DropCountMsg then decimal 0 text else 0),
              PacketCount = (if ty = PacketCountMsg then decimal 0 text else 0),
              Text = text\<rparr>, NewReader [])"
  proof
    assume a: "(ty = DropCountMsg \<or> ty = PacketCountMsg) \<and> is_uint IntSize text"
    then have "ParseUint text 0 = (decimal 0 text, None)"
      by (intro ParseUint_ok) (simp_all add: IntSize_def)
    with a show "readPipeMsg ?r =
        Inr (\<lparr>Type = ty,
              DropCount = (if ty = DropCountMsg then decimal 0 text else 0),
              PacketCount = (if ty = PacketCountMsg then decimal 0 text else 0),
              Text = text\<rparr>, NewReader [])"
      unfolding rd by (auto simp: upd msg_codes_distinct)
  qed
  have bad: "(ty = DropCountMsg \<or> ty = PacketCountMsg) \<and> \<not> is_uint IntSize text \<longrightarrow>
      (\<exists>k. readPipeMsg ?r = Inl (NumError k))"
  proof
    assume a: "(ty = DropCountMsg \<or> ty = PacketCountMsg) \<and> \<not> is_uint IntSize text"
    then obtain v k where "ParseUint text 0 = (v, Some (NumError k))"
      using ParseUint_err [of 0 "text"] by (auto simp: IntSize_def)
    with a show "\<exists>k. readPipeMsg ?r = Inl (NumError k)"
      unfolding rd by (auto simp: msg_codes_distinct)
  qed
  let ?inner = "frame ErrMsg (text1 @ [0]) @ frame ErrMsg (text2 @ [0])"
  let ?e = "NewReader (generateErrorMsg text1 text2)"
  have gen: "generateErrorMsg text1 text2 = frame ErrMsg (?inner @ [0])"
    by (simp add: generateErrorMsg_def generateMsg_frame Let_def)
  have ilen: "length (?inner @ [0]) < 2 ^ 24"
    using assms(2) by (simp add: frame_def header_def)
  have ipend: "pending ?e = frame ErrMsg (?inner @ [0]) @ []"
    by (simp add: NewReader_def gen)
  have nested: "parsePipeErrMsg (NewReader (frame ErrMsg (text1 @ [0]) @ frame ErrMsg (text2 @ [0]) @ []))
      = Inr (payload_text (text1 @ [0]) @ payload_text (text2 @ [0]))"
    using assms(2) by (intro parsePipeErrMsg_frames) simp_all
  have err: "readPipeMsg ?e =
      Inr (\<lparr>Type = ErrMsg, DropCount = 0, PacketCount = 0, Text = text1 @ text2\<rparr>, NewReader [])"
    unfolding readPipeMsg_frame [OF ilen ipend, unfolded payload_text_snoc]
    using nested by (simp add: msg_codes_distinct payload_text_snoc NewReader_def)
  from plain good bad err show ?thesis by blast
qed

text \<open>
  C1 (as amended) at frames of the test suite: \<^verbatim>\<open>generateMsg(SuccessMsg, "hi")\<close>,
  \<^verbatim>\<open>generateMsg(DropCountMsg, "456")\<close>, \<^verbatim>\<open>generateMsg(PacketCountMsg, "x")\<close> and
  \<^verbatim>\<open>generateErrorMsg("a", "b")\<close>.
\<close>

theorem C1_roundtrip_witness:
  "length [104, 105 :: byte] + 1 < 2 ^ 24
   \<and> length [97 :: byte] + length [98 :: byte] + 11 < 2 ^ 24
   \<and> (SuccessMsg \<noteq> DropCountMsg \<and> SuccessMsg \<noteq> ErrMsg \<and> SuccessMsg \<noteq> PacketCountMsg)
   \<and> readPipeMsg (NewReader (generateMsg SuccessMsg [104, 105])) =
       Inr (\<lparr>Type = SuccessMsg, DropCount = 0, PacketCount = 0, Text = [104, 105]\<rparr>, NewReader [])
   \<and> is_uint IntSize [52, 53, 54]
   \<and> readPipeMsg (NewReader (generateMsg DropCountMsg [52, 53, 54])) =
       Inr (\<lparr>Type = DropCountMsg, DropCount = 456, PacketCount = 0, Text = [52, 53, 54]\<rparr>,
            NewReader [])
   \<and> \<not> is_uint IntSize [120]
   \<and> (\<exists>k. readPipeMsg (NewReader (generateMsg PacketCountMsg [120])) = Inl (NumError k))
   \<and> readPipeMsg (NewReader (generateErrorMsg [97] [98])) =
       Inr (\<lparr>Type = ErrMsg, DropCount = 0, PacketCount = 0, Text = [97, 98]\<rparr>, NewReader [])"
proof -
  have h1: "length [104, 105 :: byte] + 1 < 2 ^ 24" by simp
  have h1': "length [52, 53, 54 :: byte] + 1 < 2 ^ 24" by simp
  have h1'': "length [120 :: byte] + 1 < 2 ^ 24" by simp
  have h2: "length [97 :: byte] + length [98 :: byte] + 11 < 2 ^ 24" by simp
  have ty: "SuccessMsg \<noteq> DropCountMsg \<and> SuccessMsg \<noteq> ErrMsg \<and> SuccessMsg \<noteq> PacketCountMsg"
    by (simp add: SuccessMsg_def DropCountMsg_def ErrMsg_def PacketCountMsg_def)
  have u: "is_uint IntSize [52, 53, 54]"
    by (simp add: is_uint_def is_digit_def decimal_def digit_val_def IntSize_def)
  have v: "decimal 0 [52, 53, 54] = 456"
    by (simp add: decimal_def digit_val_def)
  have nu: "\<not> is_uint IntSize [120]"
    by (simp add: is_uint_def is_digit_def)
  from C1_roundtrip [OF h1 h2, of SuccessMsg] C1_roundtrip [OF h1' h2, of DropCountMsg]
    C1_roundtrip [OF h1'' h2, of PacketCountMsg]
  show ?thesis using h1 h2 ty u v nu
    by (simp add: msg_codes_distinct)
qed

text \<open>
  C1 as stated fails: the type \<^verbatim>\<open>DropCountMsg\<close> with the text \<^verbatim>\<open>"x"\<close>, which has no NUL
  byte, is encoded by \<^verbatim>\<open>generateMsg\<close> and then not decoded to a message at all.
\<close>

theorem C1_roundtrip_counterexample:
  "(0 :: byte) \<notin> set [120]
   \<and> readPipeMsg (NewReader (generateMsg DropCountMsg [120])) = Inl (NumError ErrSyntax)"
proof -
  have len: "length [120, 0 :: byte] < 2 ^ 24" by simp
  have pend: "pending (NewReader (generateMsg DropCountMsg [120])) = frame DropCountMsg [120, 0] @ []"
    by (simp add: NewReader_def generateMsg_frame)
  have "ParseUint [120] 0 = (0, Some (NumError ErrSyntax))"
    by (simp add: ParseUint_def)
  then show ?thesis
    unfolding readPipeMsg_frame [OF len pend]
    by (simp add: payload_text_def)
qed

text \<open>
  C2. Once the goroutine of a session has stopped, \<^verbatim>\<open>Wait\<close> returns, and it returns
  \<^verbatim>\<open>nil\<close> if and only if \<^verbatim>\<open>child.Wait()\<close> returned \<^verbatim>\<open>nil\<close> and the goroutine sent no
  error on \<^verbatim>\<open>exitStatus\<close>; an error of \<^verbatim>\<open>child.Wait()\<close> is returned as it is, whatever
  the goroutine sent, and without a receive from \<^verbatim>\<open>exitStatus\<close>. That last part needs
  nothing of the goroutine: it holds in every state of the channels.
\<close>

theorem C2_Wait_result:
  "(snd (capture_loop sched stderr) \<longrightarrow>
      (\<exists>result c' steps.
         Capture_Wait childWait (channels_after (capture_goroutine sched stderr)) =
           (Returns result, c', steps)
         \<and> (result = None \<longleftrightarrow>
              childWait = None \<and> sent_errors (capture_goroutine sched stderr) = [])
         \<and> (\<forall>err. childWait = Some err \<longrightarrow>
              result = Some err \<and> RecvExitStatus \<notin> set steps)))
   \<and> (fst (snd (statistics_loop sched lines scanErr)) \<longrightarrow>
      (\<exists>result s' steps.
         Statistics_Wait childWait (channels_after (statistics_goroutine sched lines scanErr)) =
           (Returns result, s', steps)
         \<and> (result = None \<longleftrightarrow>
              childWait = None \<and> sent_errors (statistics_goroutine sched lines scanErr) = [])
         \<and> (\<forall>err. childWait = Some err \<longrightarrow>
              result = Some err \<and> RecvExitStatus \<notin> set steps)))
   \<and> fst (Capture_Wait (Some failure) c) = Returns (Some failure)
   \<and> fst (Statistics_Wait (Some failure) c) = Returns (Some failure)"
proof (intro conjI impI)
  show "fst (Capture_Wait (Some failure) c) = Returns (Some failure)"
    by (simp add: Capture_Wait_def)
  show "fst (Statistics_Wait (Some failure) c) = Returns (Some failure)"
    by (simp add: Statistics_Wait_def)
next
  assume a: "snd (capture_loop sched stderr)"
  from Capture_Wait_result [OF capture_stopped_channels(1,2) [OF a], of childWait]
  show "\<exists>result c' steps.
         Capture_Wait childWait (channels_after (capture_goroutine sched stderr)) =
           (Returns result, c', steps)
         \<and> (result = None \<longleftrightarrow>
              childWait = None \<and> sent_errors (capture_goroutine sched stderr) = [])
         \<and> (\<forall>err. childWait = Some err \<longrightarrow>
              result = Some err \<and> RecvExitStatus \<notin> set steps)"
    unfolding capture_stopped_channels(3) [OF a] .
next
  assume a: "fst (snd (statistics_loop sched lines scanErr))"
  from Statistics_Wait_result [OF statistics_stopped_channels(1,2) [OF a], of childWait]
  show "\<exists>result s' steps.
         Statistics_Wait childWait (channels_after (statistics_goroutine sched lines scanErr)) =
           (Returns result, s', steps)
         \<and> (result = None \<longleftrightarrow>
              childWait = None \<and> sent_errors (statistics_goroutine sched lines scanErr) = [])
         \<and> (\<forall>err. childWait = Some err \<longrightarrow>
              result = Some err \<and> RecvExitStatus \<notin> set steps)"
    unfolding statistics_stopped_channels(3) [OF a] .
qed

text \<open>
  C2 at a capture whose input has ended (with a clean and with a failed process exit) and
  at a statistics session whose only line is \<^verbatim>\<open>"foobar"\<close>.
\<close>

theorem C2_Wait_result_witness:
  "snd (capture_loop [] (NewReader []))
   \<and> sent_errors (capture_goroutine [] (NewReader [])) = []
   \<and> fst (Capture_Wait None (channels_after (capture_goroutine [] (NewReader [])))) = Returns None
   \<and> fst (Capture_Wait (Some (ExitError 1)) (channels_after (capture_goroutine [] (NewReader []))))
       = Returns (Some (ExitError 1))
   \<and> fst (snd (statistics_loop [] [[102, 111, 111, 98, 97, 114]] None))
   \<and> sent_errors (statistics_goroutine [] [[102, 111, 111, 98, 97, 114]] None) = [IllegalOutput]
   \<and> fst (Statistics_Wait None
            (channels_after (statistics_goroutine [] [[102, 111, 111, 98, 97, 114]] None)))
       = Returns (Some IllegalOutput)"
proof -
  have e: "readPipeMsg (NewReader []) = Inl EOF"
    by (intro readPipeMsg_Inl) (simp add: parsePipeMsg_short NewReader_def)
  have q: "parseStatisticsLine [102, 111, 111, 98, 97, 114] = ([], 0, 0, Some IllegalOutput)"
    by (simp add: parseStatisticsLine_def SplitN3_none tab_def)
  have c: "capture_loop [] (NewReader []) = ([], True)" by (simp add: e)
  have s: "statistics_loop [] [[102, 111, 111, 98, 97, 114]] None =
             ([SendExitStatus IllegalOutput], True, [])"
    using q by simp
  from C2_Wait_result [of "[]" "NewReader []" None "[[102, 111, 111, 98, 97, 114]]" None]
    C2_Wait_result [of "[]" "NewReader []" "Some (ExitError 1)" "[]" None "ExitError 1"
      "channels_after (capture_goroutine [] (NewReader []))"]
  show ?thesis
    by (simp add: c s capture_goroutine_def statistics_goroutine_def channels_after_def
          Capture_Wait_def Statistics_Wait_def del: capture_loop.simps statistics_loop.simps)
qed




text \<open>
  C4. For every frame of type \<^verbatim>\<open>DropCountMsg\<close> or \<^verbatim>\<open>PacketCountMsg\<close> at the head of
  the input: if the text of its payload is not a base-10 unsigned integer (of the size of
  Go's \<^verbatim>\<open>uint\<close>), \<^verbatim>\<open>readPipeMsg\<close> fails with a \<^verbatim>\<open>strconv.NumError\<close>, which is none of
  the I/O errors; if it is one, \<^verbatim>\<open>readPipeMsg\<close> returns a message whose numeric field for
  that type is exactly the number, the other numeric field is zero, and the reader is left
  after the frame.
\<close>

theorem C4_count_frames:
  assumes "ty = DropCountMsg \<or> ty = PacketCountMsg"
    and "length body < 2 ^ 24"
    and "pending r = frame ty body @ rest"
  shows "(\<not> is_uint IntSize (payload_text body) \<longrightarrow>
            (\<exists>k. readPipeMsg r = Inl (NumError k)))
       \<and> (is_uint IntSize (payload_text body) \<longrightarrow>
            readPipeMsg r =
              Inr (\<lparr>Type = ty,
                    DropCount = (if ty = DropCountMsg then decimal 0 (payload_text body) else 0),
                    PacketCount = (if ty = PacketCountMsg then decimal 0 (payload_text body) else 0),
                    Text = payload_text body\<rparr>,
                   r\<lparr>pending := rest\<rparr>))"
proof (intro conjI impI)
  assume "\<not> is_uint IntSize (payload_text body)"
  then have "\<not> is_uint 64 (payload_text body)" by (simp add: IntSize_def)
  then obtain v k where "ParseUint (payload_text body) 0 = (v, Some (NumError k))"
    using ParseUint_err [of 0 "payload_text body"] by auto
  with assms(1) show "\<exists>k. readPipeMsg r = Inl (NumError k)"
    unfolding readPipeMsg_frame [OF assms(2,3)]
    by (auto simp: msg_codes_distinct)
next
  assume "is_uint IntSize (payload_text body)"
  then have "is_uint 64 (payload_text body)" by (simp add: IntSize_def)
  then have "ParseUint (payload_text body) 0 = (decimal 0 (payload_text body), None)"
    by (intro ParseUint_ok) simp_all
  with assms(1) show "readPipeMsg r =
      Inr (\<lparr>Type = ty,
            DropCount = (if ty = DropCountMsg then decimal 0 (payload_text body) else 0),
            PacketCount = (if ty = PacketCountMsg then decimal 0 (payload_text body) else 0),
            Text = payload_text body\<rparr>,
           r\<lparr>pending := rest\<rparr>)"
    unfolding readPipeMsg_frame [OF assms(2,3)]
    by (auto simp: msg_codes_distinct)
qed

text \<open>
  C4 at the frame \<^verbatim>\<open>generateMsg(PacketCountMsg, "123")\<close> of the test suite: the hypotheses
  hold there, and the packet count is 123.
\<close>

theorem C4_count_frames_witness:
  "(PacketCountMsg = DropCountMsg \<or> PacketCountMsg = PacketCountMsg)
   \<and> length [49, 50, 51, 0 :: byte] < 2 ^ 24
   \<and> pending (NewReader (generateMsg PacketCountMsg [49, 50, 51])) =
       frame PacketCountMsg [49, 50, 51, 0] @ []
   \<and> is_uint IntSize (payload_text [49, 50, 51, 0])
   \<and> readPipeMsg (NewReader (generateMsg PacketCountMsg [49, 50, 51])) =
       Inr (\<lparr>Type = PacketCountMsg, DropCount = 0, PacketCount = 123, Text = [49, 50, 51]\<rparr>,
            NewReader [])"
proof -
  have h1: "PacketCountMsg = DropCountMsg \<or> PacketCountMsg = PacketCountMsg" by simp
  have h2: "length [49, 50, 51, 0 :: byte] < 2 ^ 24" by simp
  have h3: "pending (NewReader (generateMsg PacketCountMsg [49, 50, 51])) =
              frame PacketCountMsg [49, 50, 51, 0] @ []"
    by (simp add: NewReader_def generateMsg_frame)
  have h4: "is_uint IntSize (payload_text [49, 50, 51, 0])"
    by (simp add: is_uint_def payload_text_def is_digit_def decimal_def digit_val_def IntSize_def)
  have v: "decimal 0 (payload_text [49, 50, 51, 0]) = 123"
    by (simp add: payload_text_def decimal_def digit_val_def)
  from C4_count_frames [OF h1 h2 h3] h4 v show ?thesis
    using h2 h3 by (simp add: msg_codes_distinct payload_text_def NewReader_def)
qed

text \<open>
  C5, as the code has it. In every message \<^verbatim>\<open>readPipeMsg\<close> returns, \<^verbatim>\<open>DropCount\<close> is zero
  unless the type is \<^verbatim>\<open>DropCountMsg\<close> and \<^verbatim>\<open>PacketCount\<close> is zero unless the type is
  \<^verbatim>\<open>PacketCountMsg\<close>; for these two types the numeric field is the value of \<^verbatim>\<open>Text\<close>,
  which is kept and is a base-10 unsigned integer, so it is not empty.
\<close>

theorem C5_populated_fields:
  assumes "readPipeMsg r = Inr (m, r')"
  shows "(Type m \<noteq> DropCountMsg \<longrightarrow> DropCount m = 0)
       \<and> (Type m \<noteq> PacketCountMsg \<longrightarrow> PacketCount m = 0)
       \<and> (Type m = DropCountMsg \<longrightarrow>
            is_uint IntSize (Text m) \<and> DropCount m = decimal 0 (Text m))
       \<and> (Type m = PacketCountMsg \<longrightarrow>
            is_uint IntSize (Text m) \<and> PacketCount m = decimal 0 (Text m))"
proof (cases "parsePipeMsg r")
  case (Inl e)
  with assms show ?thesis by (simp add: readPipeMsg_def)
next
  case (Inr x)
  then obtain ty buf r1 where p: "parsePipeMsg r = Inr ((ty, buf), r1)"
    by (cases x) auto
  have num: "ParseUint buf 0 = (i, None) \<Longrightarrow> is_uint IntSize buf \<and> i = decimal 0 buf" for i
    using ParseUint_err [of 0 buf] ParseUint_ok [of 0 buf]
    by (cases "is_uint 64 buf") (auto simp: IntSize_def)
  consider "ty = DropCountMsg" | "ty = ErrMsg" | "ty = PacketCountMsg"
    | "ty \<noteq> DropCountMsg" "ty \<noteq> ErrMsg" "ty \<noteq> PacketCountMsg"
    by blast
  then show ?thesis
  proof cases
    case 1
    with assms p obtain i where "ParseUint buf 0 = (i, None)"
      and "m = \<lparr>Type = ty, DropCount = i, PacketCount = 0, Text = buf\<rparr>"
      by (auto simp: readPipeMsg_def split: prod.splits option.splits)
    with 1 num show ?thesis by (auto simp: msg_codes_distinct)
  next
    case 2
    with assms p obtain t where "m = \<lparr>Type = ty, DropCount = 0, PacketCount = 0, Text = t\<rparr>"
      by (auto simp: readPipeMsg_def msg_codes_distinct split: sum.splits)
    with 2 show ?thesis by (auto simp: msg_codes_distinct)
  next
    case 3
    with assms p obtain i where "ParseUint buf 0 = (i, None)"
      and "m = \<lparr>Type = ty, DropCount = 0, PacketCount = i, Text = buf\<rparr>"
      by (auto simp: readPipeMsg_def msg_codes_distinct split: prod.splits option.splits)
    with 3 num show ?thesis by (auto simp: msg_codes_distinct)
  next
    case 4
    with assms p have "m = \<lparr>Type = ty, DropCount = 0, PacketCount = 0, Text = buf\<rparr>"
      by (auto simp: readPipeMsg_def)
    with 4 show ?thesis by simp
  qed
qed

text \<open>C5 (as amended) at the frame \<^verbatim>\<open>generateMsg(PacketCountMsg, "123")\<close>.\<close>

theorem C5_populated_fields_witness:
  "readPipeMsg (NewReader (generateMsg PacketCountMsg [49, 50, 51])) =
     Inr (\<lparr>Type = PacketCountMsg, DropCount = 0, PacketCount = 123, Text = [49, 50, 51]\<rparr>,
          NewReader [])
   \<and> DropCount \<lparr>Type = PacketCountMsg, DropCount = 0, PacketCount = 123, Text = [49, 50, 51]\<rparr> = 0
   \<and> is_uint IntSize [49, 50, 51]
   \<and> decimal 0 [49, 50, 51] = 123"
  using C5_populated_fields [OF readPipeMsg_generateMsg_123] readPipeMsg_generateMsg_123
  by (simp add: msg_codes_distinct)

text \<open>
  C5 as stated fails: decoding \<^verbatim>\<open>generateMsg(PacketCountMsg, "123")\<close> gives a message with
  both \<^verbatim>\<open>PacketCount\<close> and \<^verbatim>\<open>Text\<close> populated.
\<close>

theorem C5_populated_fields_counterexample:
  "readPipeMsg (NewReader (generateMsg PacketCountMsg [49, 50, 51])) =
     Inr (\<lparr>Type = PacketCountMsg, DropCount = 0, PacketCount = 123, Text = [49, 50, 51]\<rparr>,
          NewReader [])
   \<and> [49, 50, 51] \<noteq> ([] :: gostring) \<and> (123 :: nat) \<noteq> 0"
  using readPipeMsg_generateMsg_123 by simp




text \<open>
  C7. A line of exactly three tab-separated fields whose second and third fields are
  base-10 unsigned integers (of 64 bits) is parsed to the device name, the packet count and
  the drop count, with no error. Any other line makes \<^verbatim>\<open>parseStatisticsLine\<close> return an
  error; when the goroutine of \<^verbatim>\<open>NewStatistics\<close> comes to such a line, the lines before
  it having been parsed and delivered, it sends that error on \<^verbatim>\<open>exitStatus\<close>, once, and
  returns: the deferred closes follow, and the lines after it are never scanned.
\<close>

theorem C7_statistics_lines:
  "(length (tab_fields line) = 3
      \<and> is_uint 64 (tab_fields line ! 1) \<and> is_uint 64 (tab_fields line ! 2) \<longrightarrow>
    parseStatisticsLine line =
      (tab_fields line ! 0, decimal 0 (tab_fields line ! 1), decimal 0 (tab_fields line ! 2), None))
   \<and> (\<not> (length (tab_fields line) = 3
           \<and> is_uint 64 (tab_fields line ! 1) \<and> is_uint 64 (tab_fields line ! 2)) \<longrightarrow>
       (\<exists>devname packetcount dropcount err.
          parseStatisticsLine line = (devname, packetcount, dropcount, Some err)
          \<and> ((\<forall>l \<in> set good. line_error l = None) \<longrightarrow>
               statistics_loop (replicate (length good) SendCase @ sched)
                   (good @ line # unread) scanErr =
                 (map (\<lambda>l. Send (line_stats l)) good @ [SendExitStatus err], True, unread)
               \<and> statistics_goroutine (replicate (length good) SendCase @ sched)
                   (good @ line # unread) scanErr =
                 map (\<lambda>l. Send (line_stats l)) good
                   @ [SendExitStatus err, CloseExitStatus, CloseOutput])))"
proof (intro conjI impI)
  assume "length (tab_fields line) = 3
      \<and> is_uint 64 (tab_fields line ! 1) \<and> is_uint 64 (tab_fields line ! 2)"
  then show "parseStatisticsLine line =
      (tab_fields line ! 0, decimal 0 (tab_fields line ! 1), decimal 0 (tab_fields line ! 2), None)"
    by (simp add: parseStatisticsLine_ok)
next
  assume "\<not> (length (tab_fields line) = 3
           \<and> is_uint 64 (tab_fields line ! 1) \<and> is_uint 64 (tab_fields line ! 2))"
  then obtain devname packetcount dropcount err
    where bad: "parseStatisticsLine line = (devname, packetcount, dropcount, Some err)"
    using parseStatisticsLine_err by blast
  have "statistics_loop (replicate (length good) SendCase @ sched)
            (good @ line # unread) scanErr =
          (map (\<lambda>l. Send (line_stats l)) good @ [SendExitStatus err], True, unread)"
    if "\<forall>l \<in> set good. line_error l = None"
    unfolding statistics_loop_good_prefix [OF that] statistics_loop_bad [OF bad]
    by simp
  then have "(\<forall>l \<in> set good. line_error l = None) \<longrightarrow>
       statistics_loop (replicate (length good) SendCase @ sched)
           (good @ line # unread) scanErr =
         (map (\<lambda>l. Send (line_stats l)) good @ [SendExitStatus err], True, unread)
       \<and> statistics_goroutine (replicate (length good) SendCase @ sched)
           (good @ line # unread) scanErr =
         map (\<lambda>l. Send (line_stats l)) good
           @ [SendExitStatus err, CloseExitStatus, CloseOutput]"
    by (simp add: statistics_goroutine_def)
  with bad show "\<exists>devname packetcount dropcount err.
          parseStatisticsLine line = (devname, packetcount, dropcount, Some err)
          \<and> ((\<forall>l \<in> set good. line_error l = None) \<longrightarrow>
               statistics_loop (replicate (length good) SendCase @ sched)
                   (good @ line # unread) scanErr =
                 (map (\<lambda>l. Send (line_stats l)) good @ [SendExitStatus err], True, unread)
               \<and> statistics_goroutine (replicate (length good) SendCase @ sched)
                   (good @ line # unread) scanErr =
                 map (\<lambda>l. Send (line_stats l)) good
                   @ [SendExitStatus err, CloseExitStatus, CloseOutput])"
    by blast
qed

text \<open>
  C7 at the lines of the test suite: \<^verbatim>\<open>"devX\t123\t456"\<close> is parsed to
  \<^verbatim>\<open>("devX", 123, 456)\<close>; \<^verbatim>\<open>"foobar"\<close> is an error, and a goroutine that reads it after two
  good lines delivers two statistics, sends the error and stops.
\<close>

theorem C7_statistics_lines_witness:
  "tab_fields [100, 101, 118, 88, 9, 49, 50, 51, 9, 52, 53, 54] =
     [[100, 101, 118, 88], [49, 50, 51], [52, 53, 54]]
   \<and> is_uint 64 [49, 50, 51] \<and> is_uint 64 [52, 53, 54]
   \<and> parseStatisticsLine [100, 101, 118, 88, 9, 49, 50, 51, 9, 52, 53, 54] =
       ([100, 101, 118, 88], 123, 456, None)
   \<and> length (tab_fields [102, 111, 111, 98, 97, 114]) \<noteq> 3
   \<and> parseStatisticsLine [102, 111, 111, 98, 97, 114] = ([], 0, 0, Some IllegalOutput)
   \<and> statistics_goroutine [SendCase, SendCase]
        [[100, 101, 118, 88, 9, 49, 50, 51, 9, 52, 53, 54],
         [100, 101, 118, 88, 9, 49, 50, 51, 9, 52, 53, 54],
         [102, 111, 111, 98, 97, 114],
         [100, 101, 118, 88, 9, 49, 50, 51, 9, 52, 53, 54]]
        None =
       [Send (DeviceStatistics [100, 101, 118, 88] 123 456),
        Send (DeviceStatistics [100, 101, 118, 88] 123 456),
        SendExitStatus IllegalOutput, CloseExitStatus, CloseOutput]"
proof -
  let ?devX = "[100, 101, 118, 88, 9, 49, 50, 51, 9, 52, 53, 54] :: gostring"
  let ?foobar = "[102, 111, 111, 98, 97, 114] :: gostring"
  have f: "tab_fields ?devX = [[100, 101, 118, 88], [49, 50, 51], [52, 53, 54]]"
    by (simp add: tab_fields_def tab_def)
  have u: "is_uint 64 [49, 50, 51]" "is_uint 64 [52, 53, 54]"
    by (simp_all add: is_uint_def is_digit_def decimal_def digit_val_def)
  have v: "decimal 0 [49, 50, 51] = 123" "decimal 0 [52, 53, 54] = 456"
    by (simp_all add: decimal_def digit_val_def)
  have p: "parseStatisticsLine ?devX = ([100, 101, 118, 88], 123, 456, None)"
    using C7_statistics_lines [of ?devX] f u v by simp
  have g: "length (tab_fields ?foobar) \<noteq> 3"
    by (simp add: tab_fields_def tab_def)
  have q: "parseStatisticsLine ?foobar = ([], 0, 0, Some IllegalOutput)"
    by (simp add: parseStatisticsLine_def SplitN3_none tab_def)
  have good: "\<forall>l \<in> set [?devX, ?devX]. line_error l = None"
    by (simp add: line_error_def p)
  have ls: "line_stats ?devX = DeviceStatistics [100, 101, 118, 88] 123 456"
    by (simp add: line_stats_def p)
  from C7_statistics_lines [of ?foobar "[?devX, ?devX]" "[]" "[?devX]" None] g
  obtain devname packetcount dropcount err
    where e1: "parseStatisticsLine ?foobar = (devname, packetcount, dropcount, Some err)"
      and e2: "(\<forall>l \<in> set [?devX, ?devX]. line_error l = None) \<longrightarrow>
        statistics_loop (replicate (length [?devX, ?devX]) SendCase @ [])
            ([?devX, ?devX] @ ?foobar # [?devX]) None =
          (map (\<lambda>l. Send (line_stats l)) [?devX, ?devX] @ [SendExitStatus err], True, [?devX])
        \<and> statistics_goroutine (replicate (length [?devX, ?devX]) SendCase @ [])
            ([?devX, ?devX] @ ?foobar # [?devX]) None =
          map (\<lambda>l. Send (line_stats l)) [?devX, ?devX]
            @ [SendExitStatus err, CloseExitStatus, CloseOutput]"
    by blast
  from e1 have err: "err = IllegalOutput" unfolding q by simp
  from e2 good have "statistics_goroutine (replicate (length [?devX, ?devX]) SendCase @ [])
            ([?devX, ?devX] @ ?foobar # [?devX]) None =
          map (\<lambda>l. Send (line_stats l)) [?devX, ?devX]
            @ [SendExitStatus err, CloseExitStatus, CloseOutput]"
    by blast
  then have r: "statistics_goroutine [SendCase, SendCase] [?devX, ?devX, ?foobar, ?devX] None =
       [Send (DeviceStatistics [100, 101, 118, 88] 123 456),
        Send (DeviceStatistics [100, 101, 118, 88] 123 456),
        SendExitStatus IllegalOutput, CloseExitStatus, CloseOutput]"
    by (simp add: ls err)
  from f u p g q r show ?thesis by blast
qed



text \<open>
  C9, as the code has it. \<^verbatim>\<open>Wait\<close> first waits for the process. If that wait returns an
  error, \<^verbatim>\<open>Wait\<close> returns it at once: \<^verbatim>\<open>quit\<close> is not closed, \<^verbatim>\<open>exitStatus\<close> is not
  read and the channels are as they were. If it returns \<^verbatim>\<open>nil\<close>, \<^verbatim>\<open>Wait\<close> closes
  \<^verbatim>\<open>quit\<close>, then receives from \<^verbatim>\<open>exitStatus\<close>, and returns the error received, or
  \<^verbatim>\<open>nil\<close> from the closed empty channel.
\<close>

theorem C9_Wait_order:
  "(childWait = Some err \<longrightarrow>
      Capture_Wait childWait c = (Returns (Some err), c, [ChildWait])
      \<and> Statistics_Wait childWait c = (Returns (Some err), c, [ChildWait]))
   \<and> (childWait = None \<and> \<not> quit_closed c \<longrightarrow>
      snd (snd (Capture_Wait childWait c)) = [ChildWait, CloseQuit, RecvExitStatus]
      \<and> quit_closed (fst (snd (Capture_Wait childWait c)))
      \<and> fst (Capture_Wait childWait c) =
          (case exitStatus_buf c of
             e # buf \<Rightarrow> Returns (Some e)
           | [] \<Rightarrow> if exitStatus_closed c then Returns None else Blocks)
      \<and> snd (snd (Statistics_Wait childWait c)) = [ChildWait, CloseQuit, RecvExitStatus]
      \<and> quit_closed (fst (snd (Statistics_Wait childWait c)))
      \<and> fst (Statistics_Wait childWait c) =
          (case exitStatus_buf c of
             e # buf \<Rightarrow> Returns (Some e)
           | [] \<Rightarrow> if exitStatus_closed c then Returns None else Blocks))"
proof (intro conjI impI)
  assume failed: "childWait = Some err"
  then show "Capture_Wait childWait c = (Returns (Some err), c, [ChildWait])"
    by (simp add: Capture_Wait_def)
  from failed show "Statistics_Wait childWait c = (Returns (Some err), c, [ChildWait])"
    by (simp add: Statistics_Wait_def)
next
  assume clean: "childWait = None \<and> \<not> quit_closed c"
  then show "snd (snd (Capture_Wait childWait c)) = [ChildWait, CloseQuit, RecvExitStatus]"
    and "quit_closed (fst (snd (Capture_Wait childWait c)))"
    and "fst (Capture_Wait childWait c) =
          (case exitStatus_buf c of
             e # buf \<Rightarrow> Returns (Some e)
           | [] \<Rightarrow> if exitStatus_closed c then Returns None else Blocks)"
    by (simp_all add: Capture_Wait_def Let_def split: list.splits)
  from clean show "snd (snd (Statistics_Wait childWait c)) = [ChildWait, CloseQuit, RecvExitStatus]"
    and "quit_closed (fst (snd (Statistics_Wait childWait c)))"
    and "fst (Statistics_Wait childWait c) =
          (case exitStatus_buf c of
             e # buf \<Rightarrow> Returns (Some e)
           | [] \<Rightarrow> if exitStatus_closed c then Returns None else Blocks)"
    by (simp_all add: Statistics_Wait_def Let_def split: list.splits)
qed

text \<open>
  C9 (as amended) at a session whose goroutine has recorded an error: with a failed
  process exit, and with a clean one.
\<close>

theorem C9_Wait_order_witness:
  "Capture_Wait (Some (ExitError 1))
       \<lparr>quit_closed = False, exitStatus_buf = [NumError ErrSyntax], exitStatus_closed = True\<rparr> =
     (Returns (Some (ExitError 1)),
      \<lparr>quit_closed = False, exitStatus_buf = [NumError ErrSyntax], exitStatus_closed = True\<rparr>,
      [ChildWait])
   \<and> \<not> quit_closed \<lparr>quit_closed = False, exitStatus_buf = [NumError ErrSyntax],
                      exitStatus_closed = True\<rparr>
   \<and> snd (snd (Statistics_Wait None
        \<lparr>quit_closed = False, exitStatus_buf = [NumError ErrSyntax], exitStatus_closed = True\<rparr>))
       = [ChildWait, CloseQuit, RecvExitStatus]
   \<and> fst (Statistics_Wait None
        \<lparr>quit_closed = False, exitStatus_buf = [NumError ErrSyntax], exitStatus_closed = True\<rparr>)
       = Returns (Some (NumError ErrSyntax))"
  using C9_Wait_order [of "Some (ExitError 1)" "ExitError 1"
      "\<lparr>quit_closed = False, exitStatus_buf = [NumError ErrSyntax], exitStatus_closed = True\<rparr>"]
    C9_Wait_order [of None "ExitError 0"
      "\<lparr>quit_closed = False, exitStatus_buf = [NumError ErrSyntax], exitStatus_closed = True\<rparr>"]
  by simp

text \<open>
  C9 as stated fails: when \<^verbatim>\<open>child.Wait()\<close> returns an error, \<^verbatim>\<open>Wait\<close> returns with
  \<^verbatim>\<open>quit\<close> still open and no close among its steps.
\<close>

theorem C9_Wait_order_counterexample:
  "Capture_Wait (Some (ExitError 1))
       \<lparr>quit_closed = False, exitStatus_buf = [], exitStatus_closed = False\<rparr> =
     (Returns (Some (ExitError 1)),
      \<lparr>quit_closed = False, exitStatus_buf = [], exitStatus_closed = False\<rparr>,
      [ChildWait])
   \<and> Statistics_Wait (Some (ExitError 1))
       \<lparr>quit_closed = False, exitStatus_buf = [], exitStatus_closed = False\<rparr> =
     (Returns (Some (ExitError 1)),
      \<lparr>quit_closed = False, exitStatus_buf = [], exitStatus_closed = False\<rparr>,
      [ChildWait])
   \<and> CloseQuit \<notin> set [ChildWait]"
  by (simp add: Capture_Wait_def Statistics_Wait_def)

text \<open>
  C10. After a call of \<^verbatim>\<open>Wait\<close> in which \<^verbatim>\<open>child.Wait()\<close> returned \<^verbatim>\<open>nil\<close> and which
  has returned, \<^verbatim>\<open>quit\<close> is closed, and a second call in which \<^verbatim>\<open>child.Wait()\<close> returns
  \<^verbatim>\<open>nil\<close> again panics.
\<close>

theorem C10_second_Wait_panics:
  "(\<not> quit_closed c \<and> Capture_Wait None c = (Returns result, c', steps) \<longrightarrow>
      quit_closed c' \<and> fst (Capture_Wait None c') = Panics)
   \<and> (\<not> quit_closed c \<and> Statistics_Wait None c = (Returns result, c', steps) \<longrightarrow>
      quit_closed c' \<and> fst (Statistics_Wait None c') = Panics)"
  by (cases "exitStatus_buf c")
     (auto simp: Capture_Wait_def Statistics_Wait_def Let_def split: if_splits)

text \<open>C10 at a session whose goroutine has stopped without an error.\<close>

theorem C10_second_Wait_panics_witness:
  "\<not> quit_closed \<lparr>quit_closed = False, exitStatus_buf = [], exitStatus_closed = True\<rparr>
   \<and> Capture_Wait None \<lparr>quit_closed = False, exitStatus_buf = [], exitStatus_closed = True\<rparr> =
       (Returns None, \<lparr>quit_closed = True, exitStatus_buf = [], exitStatus_closed = True\<rparr>,
        [ChildWait, CloseQuit, RecvExitStatus])
   \<and> fst (Capture_Wait None \<lparr>quit_closed = True, exitStatus_buf = [], exitStatus_closed = True\<rparr>)
       = Panics
   \<and> Statistics_Wait None \<lparr>quit_closed = False, exitStatus_buf = [], exitStatus_closed = True\<rparr> =
       (Returns None, \<lparr>quit_closed = True, exitStatus_buf = [], exitStatus_closed = True\<rparr>,
        [ChildWait, CloseQuit, RecvExitStatus])
   \<and> fst (Statistics_Wait None \<lparr>quit_closed = True, exitStatus_buf = [], exitStatus_closed = True\<rparr>)
       = Panics"
proof -
  let ?c = "\<lparr>quit_closed = False, exitStatus_buf = [], exitStatus_closed = True\<rparr>"
  let ?c' = "\<lparr>quit_closed = True, exitStatus_buf = [], exitStatus_closed = True\<rparr>"
  have 1: "Capture_Wait None ?c = (Returns None, ?c', [ChildWait, CloseQuit, RecvExitStatus])"
    by (simp add: Capture_Wait_def)
  have 2: "Statistics_Wait None ?c = (Returns None, ?c', [ChildWait, CloseQuit, RecvExitStatus])"
    by (simp add: Statistics_Wait_def)
  from C10_second_Wait_panics [of ?c None ?c' "[ChildWait, CloseQuit, RecvExitStatus]"] 1 2
  show ?thesis by simp
qed

end
